theory Spec2Isabelle
  imports Main "HOL-Library.Sublist"
begin

section \<open>Strings of the Python source\<close>

text \<open>
  A Python \<open>str\<close> is modelled as a \<open>string\<close>, one \<open>char\<close> per code point; the model
  covers the code points below 256. Files are opened by the source in text mode with
  the encoding UTF-8, which writes and reads such a text back unchanged, so the content
  of a file is the text itself. The platform is POSIX: a written line feed stays a line
  feed.
\<close>

abbreviation LF :: char where "LF \<equiv> CHR 0x0A"
abbreviation CR :: char where "CR \<equiv> CHR 0x0D"
abbreviation QUOTE :: char where "QUOTE \<equiv> CHR 0x27"

text \<open>\<open>str.isspace\<close> on one character: the white space of Unicode below 256.\<close>

definition isspace :: "char \<Rightarrow> bool" where
  "isspace c = (c \<in> set [CHR 0x09, CHR 0x0A, CHR 0x0B, CHR 0x0C, CHR 0x0D,
                           CHR 0x1C, CHR 0x1D, CHR 0x1E, CHR 0x1F, CHR 0x20,
                           CHR 0x85, CHR 0xA0])"

text \<open>\<open>s.strip()\<close>: white space removed from both ends.\<close>

definition str_strip :: "string \<Rightarrow> string" where
  "str_strip s = rev (dropWhile isspace (rev (dropWhile isspace s)))"

text \<open>
  The first occurrence of a non-empty separator: the text before it and the text
  after it, or \<open>None\<close> when the separator does not occur.
\<close>

fun split_first :: "string \<Rightarrow> string \<Rightarrow> (string \<times> string) option" where
  "split_first sep [] = None"
| "split_first sep (c # cs) =
     (if prefix sep (c # cs) then Some ([], drop (length sep) (c # cs))
      else (case split_first sep cs of
              None \<Rightarrow> None
            | Some (a, b) \<Rightarrow> Some (c # a, b)))"

text \<open>
  \<open>s.split(sep, maxsplit=1)\<close> and \<open>s.rsplit(sep, maxsplit=1)\<close> for the non-empty
  separators of the source: one element when the separator is absent, otherwise the
  two sides of its leftmost, respectively rightmost, occurrence.
\<close>

definition str_split1 :: "string \<Rightarrow> string \<Rightarrow> string list" where
  "str_split1 sep s =
     (case split_first sep s of None \<Rightarrow> [s] | Some (a, b) \<Rightarrow> [a, b])"

definition str_rsplit1 :: "string \<Rightarrow> string \<Rightarrow> string list" where
  "str_rsplit1 sep s =
     (case split_first (rev sep) (rev s) of
        None \<Rightarrow> [s]
      | Some (a, b) \<Rightarrow> [rev b, rev a])"

text \<open>
  \<open>s.replace(old, "")\<close>: the occurrences of \<open>old\<close> are removed from left to right,
  without overlap; an empty \<open>old\<close> leaves the text as it is.
\<close>

function str_remove :: "string \<Rightarrow> string \<Rightarrow> string" where
  "str_remove old [] = []"
| "str_remove old (c # cs) =
     (if old \<noteq> [] \<and> prefix old (c # cs)
      then str_remove old (drop (length old) (c # cs))
      else c # str_remove old cs)"
  by pat_completeness auto
termination
  by (relation "measure (\<lambda>(old, s). length s)") (auto simp: neq_Nil_conv)

section \<open>Exceptions and the file system\<close>

datatype exn =
    FileNotFoundError string
  | ValueError
  | KeyError string
  | NameError string
  | OSError string

text \<open>
  Unpacking a sequence into exactly two targets, as in \<open>a, b = xs\<close>: any other
  number of values raises \<open>ValueError\<close>.
\<close>

fun unpack2 :: "'a list \<Rightarrow> exn + ('a \<times> 'a)" where
  "unpack2 [a, b] = Inr (a, b)"
| "unpack2 _ = Inl ValueError"

text \<open>
  The file system: the regular files with their text, and what the operating system
  refuses. \<open>mkdir_error d = Some e\<close> says that \<open>os.makedirs(d, exist_ok=True)\<close>
  raises the exception \<open>e\<close>; \<open>open_error p = Some e\<close> says the same of opening
  \<open>p\<close> for writing or appending; \<open>rename_error a b\<close> of \<open>os.rename(a, b)\<close> on an
  existing source. Directories are not tracked beyond that.
\<close>

record filesystem =
  files :: "string \<rightharpoonup> string"
  mkdir_error :: "string \<Rightarrow> exn option"
  open_error :: "string \<Rightarrow> exn option"
  rename_error :: "string \<Rightarrow> string \<Rightarrow> exn option"

text \<open>The global configuration object \<open>CFG\<close>, passed explicitly.\<close>

record config =
  file_logger_path :: string

text \<open>\<open>posixpath.dirname\<close>.\<close>

definition dirname :: "string \<Rightarrow> string" where
  "dirname p =
     (let head = rev (dropWhile (\<lambda>c. c \<noteq> CHR ''/'') (rev p))
      in if head \<noteq> [] \<and> head \<noteq> replicate (length head) CHR ''/''
         then rev (dropWhile (\<lambda>c. c = CHR ''/'') (rev head))
         else head)"

text \<open>
  \<open>os.makedirs(d, exist_ok=True)\<close>: the empty name is refused with
  \<open>FileNotFoundError\<close>.
\<close>

definition makedirs :: "filesystem \<Rightarrow> string \<Rightarrow> exn + unit" where
  "makedirs fs d =
     (if d = [] then Inl (FileNotFoundError [])
      else (case mkdir_error fs d of Some e \<Rightarrow> Inl e | None \<Rightarrow> Inr ()))"

text \<open>\<open>with open(p, "w") as f: f.write(text)\<close> and the same with mode \<open>"a"\<close>.\<close>

definition open_write :: "filesystem \<Rightarrow> string \<Rightarrow> string \<Rightarrow> exn + filesystem" where
  "open_write fs p text =
     (case open_error fs p of
        Some e \<Rightarrow> Inl e
      | None \<Rightarrow> Inr (fs\<lparr>files := (files fs)(p \<mapsto> text)\<rparr>))"

definition content_of :: "filesystem \<Rightarrow> string \<Rightarrow> string" where
  "content_of fs p = (case files fs p of None \<Rightarrow> [] | Some old \<Rightarrow> old)"

definition appended :: "filesystem \<Rightarrow> string \<Rightarrow> string \<Rightarrow> filesystem" where
  "appended fs p text = fs\<lparr>files := (files fs)(p \<mapsto> content_of fs p @ text)\<rparr>"

definition open_append :: "filesystem \<Rightarrow> string \<Rightarrow> string \<Rightarrow> exn + filesystem" where
  "open_append fs p text =
     (case open_error fs p of
        Some e \<Rightarrow> Inl e
      | None \<Rightarrow> Inr (appended fs p text))"

text \<open>
  Reading in text mode translates the line ends \<open>CR LF\<close> and \<open>CR\<close> to \<open>LF\<close>
  (universal newlines).
\<close>

fun universal_newlines :: "string \<Rightarrow> string" where
  "universal_newlines [] = []"
| "universal_newlines [c] = [if c = CR then LF else c]"
| "universal_newlines (c # d # cs) =
     (if c = CR
      then (if d = LF then LF # universal_newlines cs
            else LF # universal_newlines (d # cs))
      else c # universal_newlines (d # cs))"

text \<open>
  Iterating over an open text file: the lines of the translated text, each with its
  line feed, the last one without when the text does not end in one. The first
  argument is the line read so far.
\<close>

fun lines_from :: "string \<Rightarrow> string \<Rightarrow> string list" where
  "lines_from cur [] = (if cur = [] then [] else [cur])"
| "lines_from cur (c # cs) =
     (if c = LF then (cur @ [c]) # lines_from [] cs else lines_from (cur @ [c]) cs)"

definition readlines :: "string \<Rightarrow> string list" where
  "readlines content = lines_from [] (universal_newlines content)"

text \<open>\<open>with open(p, "r") as f: f.read()\<close>.\<close>

definition read_text :: "filesystem \<Rightarrow> string \<Rightarrow> exn + string" where
  "read_text fs p =
     (case files fs p of
        None \<Rightarrow> Inl (FileNotFoundError p)
      | Some content \<Rightarrow> Inr (universal_newlines content))"

text \<open>The string that \<open>str(err)\<close> gives for an exception.\<close>

fun exn_text :: "exn \<Rightarrow> string" where
  "exn_text (FileNotFoundError p) =
     ''[Errno 2] No such file or directory: '' @ [QUOTE] @ p @ [QUOTE]"
| "exn_text ValueError = ''not enough values to unpack (expected 2, got 1)''"
| "exn_text (KeyError k) = [QUOTE] @ k @ [QUOTE]"
| "exn_text (NameError n) = ''name '' @ [QUOTE] @ n @ [QUOTE] @ '' is not defined''"
| "exn_text (OSError msg) = msg"

section \<open>The operation log\<close>

text \<open>\<open>text_checksum\<close>; the digest function of \<open>hashlib\<close> is a parameter.\<close>

definition text_checksum :: "(string \<Rightarrow> string) \<Rightarrow> string \<Rightarrow> string" where
  "text_checksum md5_hexdigest text = md5_hexdigest text"

type_synonym entry = "string \<times> string \<times> string option"

text \<open>
  \<open>operations_from_log\<close> is a generator. Its run is modelled by the entries it
  yields, in order, and the way it ends: \<open>None\<close> when it is exhausted, \<open>Some e\<close> when
  it raises \<open>e\<close> after the entries yielded so far. A missing log file ends the run at
  once, without an entry and without an error; of the failures of \<open>open\<close>, the
  missing file is the one modelled.
\<close>

definition legacy_marker :: string where
  "legacy_marker = ''File Operation Logger''"

text \<open>One pass through the body of the loop \<open>for line in log\<close>.\<close>

datatype step = Continue | Yield entry | Raise exn

definition parse_line :: "string \<Rightarrow> step" where
  "parse_line l =
     (let line = str_strip (str_remove legacy_marker l) in
      if line = [] then Continue
      else (case unpack2 (str_split1 '': '' line) of
              Inl e \<Rightarrow> Raise e
            | Inr (operation0, tail) \<Rightarrow>
                (let operation = str_strip operation0 in
                 if operation = ''write'' \<or> operation = ''append'' then
                   (case unpack2 (map str_strip (str_rsplit1 '' #'' tail)) of
                      Inr (path, checksum) \<Rightarrow> Yield (operation, path, Some checksum)
                    | Inl e \<Rightarrow> Yield (operation, str_strip tail, None))
                 else if operation = ''delete'' then
                   Yield (operation, str_strip tail, None)
                 else Continue)))"

fun parse_log_lines :: "string list \<Rightarrow> entry list \<times> exn option" where
  "parse_log_lines [] = ([], None)"
| "parse_log_lines (l # ls) =
     (case parse_line l of
        Continue \<Rightarrow> parse_log_lines ls
      | Yield e \<Rightarrow> (case parse_log_lines ls of (es, ending) \<Rightarrow> (e # es, ending))
      | Raise e \<Rightarrow> ([], Some e))"

definition operations_from_log :: "filesystem \<Rightarrow> string \<Rightarrow> entry list \<times> exn option" where
  "operations_from_log fs log_path =
     (case files fs log_path of
        None \<Rightarrow> ([], None)
      | Some content \<Rightarrow> parse_log_lines (readlines content))"

text \<open>
  The state is a Python \<open>dict\<close> from paths to checksums, where a checksum may be
  \<open>None\<close>: \<open>st p = None\<close> says the key is absent, \<open>st p = Some None\<close> that it is
  present with the value \<open>None\<close>.
\<close>

type_synonym state = "string \<rightharpoonup> string option"

text \<open>The loop of \<open>file_operations_state\<close> over the entries the generator yields.\<close>

fun state_loop :: "state \<Rightarrow> entry list \<Rightarrow> exn + state" where
  "state_loop st [] = Inr st"
| "state_loop st ((operation, path, checksum) # es) =
     (if operation = ''write'' \<or> operation = ''append'' then
        state_loop (st(path \<mapsto> checksum)) es
      else if operation = ''delete'' then
        (case st path of
           None \<Rightarrow> Inl (KeyError path)
         | Some _ \<Rightarrow> state_loop (st(path := None)) es)
      else state_loop st es)"

definition file_operations_state :: "filesystem \<Rightarrow> string \<Rightarrow> exn + state" where
  "file_operations_state fs log_path =
     (case operations_from_log fs log_path of
        (es, ending) \<Rightarrow>
          (case state_loop Map.empty es of
             Inl e \<Rightarrow> Inl e
           | Inr st \<Rightarrow> (case ending of Some e \<Rightarrow> Inl e | None \<Rightarrow> Inr st)))"

text \<open>\<open>state.get(filename)\<close>: the value of the key, \<open>None\<close> when the key is absent.\<close>

definition dict_get :: "state \<Rightarrow> string \<Rightarrow> string option" where
  "dict_get st k = (case st k of None \<Rightarrow> None | Some v \<Rightarrow> v)"

definition is_duplicate_operation ::
  "config \<Rightarrow> filesystem \<Rightarrow> string \<Rightarrow> string \<Rightarrow> string option \<Rightarrow> exn + bool" where
  "is_duplicate_operation cfg fs operation filename checksum =
     (case file_operations_state fs (file_logger_path cfg) of
        Inl e \<Rightarrow> Inl e
      | Inr st \<Rightarrow>
          if operation = ''delete'' \<and> st filename = None then Inr True
          else if operation = ''write'' \<and> dict_get st filename = checksum then Inr True
          else Inr False)"

text \<open>The line that \<open>log_operation\<close> builds, without its line feed.\<close>

definition log_entry :: "string \<Rightarrow> string \<Rightarrow> string option \<Rightarrow> string" where
  "log_entry operation filename checksum =
     (operation @ '': '' @ filename)
       @ (case checksum of None \<Rightarrow> [] | Some c \<Rightarrow> '' #'' @ c)"

text \<open>
  \<open>append_to_file\<close> and \<open>log_operation\<close> call each other: appending with
  \<open>should_log\<close> logs the operation, and logging appends to the log file with
  \<open>should_log=False\<close>. Both return the file system they leave; \<open>append_to_file\<close>
  returns its message too, which \<open>log_operation\<close> drops.
\<close>

function
  append_to_file ::
    "config \<Rightarrow> (string \<Rightarrow> string) \<Rightarrow> filesystem \<Rightarrow> string \<Rightarrow> string \<Rightarrow> bool
       \<Rightarrow> string \<times> filesystem"
and
  log_operation ::
    "config \<Rightarrow> (string \<Rightarrow> string) \<Rightarrow> filesystem \<Rightarrow> string \<Rightarrow> string \<Rightarrow> string option
       \<Rightarrow> filesystem"
where
  "append_to_file cfg md5 fs filename text should_log =
     (case makedirs fs (dirname filename) of
        Inl err \<Rightarrow> (''Error: '' @ exn_text err, fs)
      | Inr _ \<Rightarrow>
          (case open_append fs filename text of
             Inl err \<Rightarrow> (''Error: '' @ exn_text err, fs)
           | Inr fs1 \<Rightarrow>
               if should_log then
                 (case read_text fs1 filename of
                    Inl err \<Rightarrow> (''Error: '' @ exn_text err, fs1)
                  | Inr content \<Rightarrow>
                      (''Text appended successfully.'',
                       log_operation cfg md5 fs1 ''append'' filename
                         (Some (text_checksum md5 content))))
               else (''Text appended successfully.'', fs1)))"
| "log_operation cfg md5 fs operation filename checksum =
     snd (append_to_file cfg md5 fs (file_logger_path cfg)
            (log_entry operation filename checksum @ [LF]) False)"
  by pat_completeness auto
termination
  by (relation "measure (\<lambda>x. case x of
                    Inl (cfg, md5, fs, filename, text, should_log) \<Rightarrow> if should_log then 2 else 0
                  | Inr _ \<Rightarrow> 1)") auto

declare append_to_file.simps [simp del] log_operation.simps [simp del]

definition write_to_file ::
  "config \<Rightarrow> (string \<Rightarrow> string) \<Rightarrow> filesystem \<Rightarrow> string \<Rightarrow> string
     \<Rightarrow> exn + string \<times> filesystem" where
  "write_to_file cfg md5 fs filename text =
     (let checksum = text_checksum md5 text in
      case is_duplicate_operation cfg fs ''write'' filename (Some checksum) of
        Inl e \<Rightarrow> Inl e
      | Inr True \<Rightarrow> Inr (''Error: File has already been updated.'', fs)
      | Inr False \<Rightarrow>
          (case makedirs fs (dirname filename) of
             Inl err \<Rightarrow> Inr (''Error: '' @ exn_text err, fs)
           | Inr _ \<Rightarrow>
               (case open_write fs filename text of
                  Inl err \<Rightarrow> Inr (''Error: '' @ exn_text err, fs)
                | Inr fs1 \<Rightarrow>
                    Inr (''File written to successfully.'',
                         log_operation cfg md5 fs1 ''write'' filename (Some checksum)))))"

section \<open>Splitting a file into chunks\<close>

text \<open>
  A Python slice \<open>s[a:b]\<close> with integer bounds: a negative bound counts from the end,
  and both are clamped to the text.
\<close>

definition slice_index :: "nat \<Rightarrow> int \<Rightarrow> nat" where
  "slice_index n i = (if i < 0 then nat (max 0 (int n + i)) else min n (nat i))"

definition str_slice :: "string \<Rightarrow> int \<Rightarrow> int \<Rightarrow> string" where
  "str_slice s a b =
     (let lo = slice_index (length s) a; hi = slice_index (length s) b
      in take (hi - lo) (drop lo s))"

text \<open>
  The loop of \<open>split_file\<close>, with the chunks yielded so far. The generator need not
  end (the start does not advance when \<open>max_length \<le> overlap\<close>), so its run is a
  partial function: \<open>None\<close> says that it yields for ever.
\<close>

partial_function (option) split_loop ::
  "string \<Rightarrow> int \<Rightarrow> int \<Rightarrow> int \<Rightarrow> string list \<Rightarrow> string list option" where
  "split_loop content max_length overlap start chunks =
     (let content_length = int (length content) in
      if start < content_length then
        (let end' = start + max_length in
         if end' + overlap < content_length then
           split_loop content max_length overlap (start + (max_length - overlap))
             (chunks @ [str_slice content start (end' + overlap - 1)])
         else
           (let chunk = str_slice content start content_length in
            if int (length chunk) \<le> overlap then Some chunks
            else split_loop content max_length overlap (start + (max_length - overlap))
                   (chunks @ [chunk])))
      else Some chunks)"

declare split_loop.simps [code]

definition split_file :: "string \<Rightarrow> int \<Rightarrow> int \<Rightarrow> string list option" where
  "split_file content max_length overlap = split_loop content max_length overlap 0 []"

section \<open>Renaming a file\<close>







section \<open>Notions used to state the properties\<close>

text \<open>
  The specification's reconstruction: a write or an append sets the checksum of its
  path, a delete removes the path, in the order of the entries. It never fails.
\<close>

definition apply_entry :: "state \<Rightarrow> entry \<Rightarrow> state" where
  "apply_entry st e =
     (case e of (operation, path, checksum) \<Rightarrow>
        if operation = ''write'' \<or> operation = ''append'' then st(path \<mapsto> checksum)
        else if operation = ''delete'' then st(path := None)
        else st)"

definition reconstruct :: "state \<Rightarrow> entry list \<Rightarrow> state" where
  "reconstruct st es = foldl apply_entry st es"

text \<open>
  Some delete entry names a path that is not a key of the state accumulated from the
  entries before it.
\<close>

definition untracked_delete :: "state \<Rightarrow> entry list \<Rightarrow> bool" where
  "untracked_delete st es =
     list_ex (\<lambda>i. fst (es ! i) = ''delete''
                  \<and> reconstruct st (take i es) (fst (snd (es ! i))) = None)
       [0..<length es]"

text \<open>The operating system lets the directory of a path be made and the path be opened.\<close>

definition os_permits :: "filesystem \<Rightarrow> string \<Rightarrow> bool" where
  "os_permits fs p =
     (dirname p \<noteq> [] \<and> mkdir_error fs (dirname p) = None \<and> open_error fs p = None)"

text \<open>
  A text that a line of the log carries unchanged: no white space at its ends, no line
  end inside, and no occurrence of the legacy marker.
\<close>

definition plain_text :: "string \<Rightarrow> bool" where
  "plain_text s =
     (str_strip s = s \<and> CR \<notin> set s \<and> LF \<notin> set s \<and> \<not> sublist legacy_marker s)"

text \<open>
  An operation, path and optional checksum that the log format can carry: a delete has
  no checksum; without a checksum the path is not empty and, for a write or an append,
  holds no separator \<open>'' #''\<close>; a checksum holds no such separator either.
\<close>

definition loggable :: "string \<Rightarrow> string \<Rightarrow> string option \<Rightarrow> bool" where
  "loggable operation path checksum =
     ((operation = ''write'' \<or> operation = ''append'' \<or> operation = ''delete'')
      \<and> plain_text path
      \<and> (case checksum of
            None \<Rightarrow> path \<noteq> [] \<and> (operation = ''delete'' \<or> \<not> sublist '' #'' path)
          | Some c \<Rightarrow> operation \<noteq> ''delete'' \<and> plain_text c \<and> \<not> sublist '' #'' c))"

text \<open>The log is empty or missing, or its last line is complete.\<close>

definition ends_with_newline :: "string \<Rightarrow> bool" where
  "ends_with_newline s = (s = [] \<or> last s = LF)"


text \<open>Concrete inputs: a configuration, and a file system that refuses nothing.\<close>

definition example_cfg :: config where
  "example_cfg = \<lparr>file_logger_path = ''/w/file_logger.txt''\<rparr>"

definition fresh_fs :: filesystem where
  "fresh_fs = \<lparr>files = Map.empty, mkdir_error = (\<lambda>_. None), open_error = (\<lambda>_. None),
                rename_error = (\<lambda>_ _. None)\<rparr>"

definition with_log :: "string \<Rightarrow> filesystem" where
  "with_log content = fresh_fs\<lparr>files := [''/w/file_logger.txt'' \<mapsto> content]\<rparr>"

text \<open>
  A digest function for the examples: it agrees with MD5 on the texts \<open>hello\<close> and
  \<open>hellohello\<close>, and gives the digest of the empty text everywhere else.
\<close>

definition example_md5 :: "string \<Rightarrow> string" where
  "example_md5 text =
     (if text = ''hello'' then ''5d41402abc4b2a76b9719d911017c592''
      else if text = ''hellohello'' then ''23b431acfeb41e15d466d75de822307c''
      else ''d41d8cd98f00b204e9800998ecf8427e'')"

text \<open>
  The file system after the text \<open>hello\<close> was written to \<open>p\<close> and logged once, and
  after it was written and logged twice.
\<close>

definition written_once :: "string \<Rightarrow> filesystem" where
  "written_once p =
     fresh_fs\<lparr>files := [p \<mapsto> ''hello'',
                        ''/w/file_logger.txt'' \<mapsto>
                          ''write: '' @ p @ '' #5d41402abc4b2a76b9719d911017c592'' @ [LF]]\<rparr>"

definition written_twice :: "string \<Rightarrow> filesystem" where
  "written_twice p =
     fresh_fs\<lparr>files := [p \<mapsto> ''hello'',
                        ''/w/file_logger.txt'' \<mapsto>
                          ''write: '' @ p @ '' #5d41402abc4b2a76b9719d911017c592'' @ [LF]
                          @ ''write: '' @ p @ '' #5d41402abc4b2a76b9719d911017c592'' @ [LF]]\<rparr>"

text \<open>The definitions that evaluate a call on a concrete file system.\<close>

lemmas eval_defs =
  write_to_file_def is_duplicate_operation_def file_operations_state_def
  operations_from_log_def readlines_def parse_line_def legacy_marker_def
  str_strip_def isspace_def str_split1_def str_rsplit1_def dict_get_def
  text_checksum_def example_md5_def example_cfg_def fresh_fs_def with_log_def
  makedirs_def dirname_def open_write_def open_append_def appended_def content_of_def
  log_operation.simps append_to_file.simps log_entry_def read_text_def
  written_once_def written_twice_def

section \<open>The reconstruction of the state\<close>

lemma untracked_delete_iff:
  "untracked_delete st es \<longleftrightarrow>
     (\<exists>i<length es. fst (es ! i) = ''delete''
        \<and> reconstruct st (take i es) (fst (snd (es ! i))) = None)"
  by (auto simp: untracked_delete_def list_ex_iff)

lemma untracked_delete_Nil: "untracked_delete st [] = False"
  by (simp add: untracked_delete_def)

lemma untracked_delete_Cons:
  "untracked_delete st (e # es) =
     ((fst e = ''delete'' \<and> st (fst (snd e)) = None) \<or> untracked_delete (apply_entry st e) es)"
  unfolding untracked_delete_iff length_Cons Ex_less_Suc2
  by (simp add: reconstruct_def)

lemma state_loop_Cons:
  "state_loop st (e # es) =
     (if fst e = ''delete'' \<and> st (fst (snd e)) = None then Inl (KeyError (fst (snd e)))
      else state_loop (apply_entry st e) es)"
  by (cases e) (auto simp: apply_entry_def split: option.splits)

lemma state_loop_tracked:
  "\<not> untracked_delete st es \<Longrightarrow> state_loop st es = Inr (reconstruct st es)"
proof (induction es arbitrary: st)
  case Nil
  show ?case by (simp add: reconstruct_def)
next
  case (Cons e es)
  from Cons.prems have "\<not> untracked_delete (apply_entry st e) es"
    and "\<not> (fst e = ''delete'' \<and> st (fst (snd e)) = None)"
    by (simp_all add: untracked_delete_Cons)
  with Cons.IH [of "apply_entry st e"] show ?case
    by (simp add: state_loop_Cons reconstruct_def del: state_loop.simps)
qed

lemma state_loop_untracked:
  "untracked_delete st es \<Longrightarrow> \<exists>p. state_loop st es = Inl (KeyError p)"
proof (induction es arbitrary: st)
  case Nil
  then show ?case by (simp add: untracked_delete_Nil)
next
  case (Cons e es)
  show ?case
  proof (cases "fst e = ''delete'' \<and> st (fst (snd e)) = None")
    case True
    then show ?thesis by (simp add: state_loop_Cons del: state_loop.simps)
  next
    case False
    with Cons.prems have "untracked_delete (apply_entry st e) es"
      by (simp add: untracked_delete_Cons)
    from Cons.IH [OF this] False show ?thesis
      by (simp add: state_loop_Cons del: state_loop.simps)
  qed
qed

lemma missing_log_state:
  "files fs log_path = None \<Longrightarrow> file_operations_state fs log_path = Inr Map.empty"
  by (simp add: file_operations_state_def operations_from_log_def)



lemma untracked_entries:
  "operations_from_log (with_log (''write: a.txt #1'' @ [LF] @ ''delete: b.txt'' @ [LF]))
     (file_logger_path example_cfg)
   = ([(''write'', ''a.txt'', Some ''1''), (''delete'', ''b.txt'', None)], None)"
  by code_simp

lemma tracked_entries:
  "operations_from_log (with_log (''write: a.txt #1'' @ [LF] @ ''delete: a.txt'' @ [LF]))
     (file_logger_path example_cfg)
   = ([(''write'', ''a.txt'', Some ''1''), (''delete'', ''a.txt'', None)], None)"
  by code_simp

section \<open>Effects on the file system\<close>

lemma os_permits_appended [simp]: "os_permits (appended fs p t) q = os_permits fs q"
  by (simp add: os_permits_def appended_def)

lemma content_of_appended:
  "content_of (appended fs p t) q = (if q = p then content_of fs p @ t else content_of fs q)"
  by (simp add: content_of_def appended_def)


lemma append_to_file_unlogged:
  "os_permits fs p \<Longrightarrow>
     append_to_file cfg md5 fs p text False = (''Text appended successfully.'', appended fs p text)"
  by (simp add: append_to_file.simps os_permits_def makedirs_def open_append_def)

lemma log_operation_appends:
  "os_permits fs (file_logger_path cfg) \<Longrightarrow>
     log_operation cfg md5 fs operation filename checksum
       = appended fs (file_logger_path cfg) (log_entry operation filename checksum @ [LF])"
  by (simp add: log_operation.simps append_to_file_unlogged)


section \<open>Lines of a text\<close>

lemma universal_newlines_Cons:
  "c \<noteq> CR \<Longrightarrow> universal_newlines (c # s) = c # universal_newlines s"
  by (cases s) simp_all

lemma universal_newlines_id: "CR \<notin> set s \<Longrightarrow> universal_newlines s = s"
proof (induction s)
  case Nil
  show ?case by simp
next
  case (Cons c s)
  then have "c \<noteq> CR" and "universal_newlines s = s" by auto
  then show ?case by (simp add: universal_newlines_Cons)
qed

lemma universal_newlines_Nil_iff [simp]: "universal_newlines s = [] \<longleftrightarrow> s = []"
  by (induction s rule: universal_newlines.induct) auto

lemma universal_newlines_append:
  "a = [] \<or> last a \<noteq> CR \<Longrightarrow>
     universal_newlines (a @ b) = universal_newlines a @ universal_newlines b"
proof (induction a rule: universal_newlines.induct)
  case 1
  show ?case by simp
next
  case (2 c)
  then show ?case by (simp add: universal_newlines_Cons)
next
  case (3 c d cs)
  then show ?case by (auto split: if_splits)
qed

lemma universal_newlines_ends:
  "ends_with_newline a \<Longrightarrow> ends_with_newline (universal_newlines a)"
proof (induction a rule: universal_newlines.induct)
  case 1
  show ?case by (simp add: ends_with_newline_def)
next
  case (2 c)
  then show ?case by (simp add: ends_with_newline_def)
next
  case (3 c d cs)
  then show ?case by (auto simp: ends_with_newline_def split: if_splits)
qed

lemma lines_from_append:
  "a \<noteq> [] \<Longrightarrow> last a = LF \<Longrightarrow> lines_from cur (a @ b) = lines_from cur a @ lines_from [] b"
proof (induction a arbitrary: cur)
  case Nil
  then show ?case by simp
next
  case (Cons c a)
  then show ?case by (cases "a = []") auto
qed

lemma lines_from_line:
  "LF \<notin> set body \<Longrightarrow> lines_from cur (body @ [LF]) = [cur @ body @ [LF]]"
  by (induction body arbitrary: cur) auto

lemma readlines_append_line:
  assumes "ends_with_newline old" and "CR \<notin> set body" and "LF \<notin> set body"
  shows "readlines (old @ body @ [LF]) = readlines old @ [body @ [LF]]"
proof -
  have un: "universal_newlines (old @ body @ [LF]) = universal_newlines old @ body @ [LF]"
    using assms by (auto simp: universal_newlines_append universal_newlines_id ends_with_newline_def)
  show ?thesis
  proof (cases "universal_newlines old = []")
    case True
    with un assms(3) show ?thesis
      by (simp add: readlines_def lines_from_line)
  next
    case False
    moreover from universal_newlines_ends [OF assms(1)] False
    have "last (universal_newlines old) = LF"
      by (simp add: ends_with_newline_def)
    ultimately show ?thesis
      using un assms(3) by (simp add: readlines_def lines_from_append lines_from_line)
  qed
qed

lemma parse_log_lines_append:
  "parse_log_lines ls = (es, None) \<Longrightarrow>
     parse_log_lines (ls @ ms) = (es @ fst (parse_log_lines ms), snd (parse_log_lines ms))"
proof (induction ls arbitrary: es)
  case Nil
  then show ?case by simp
next
  case (Cons l ls)
  then show ?case
    by (cases "parse_line l") (auto split: prod.splits)
qed


section \<open>Occurrences of a separator\<close>

lemma str_remove_absent: "\<not> sublist old s \<Longrightarrow> str_remove old s = s"
proof (induction s)
  case Nil
  show ?case by simp
next
  case (Cons c s)
  then have "\<not> prefix old (c # s)" and "\<not> sublist old s"
    by (auto simp: sublist_Cons_right)
  with Cons.IH show ?case by simp
qed

lemma split_first_absent: "\<not> sublist sep s \<Longrightarrow> split_first sep s = None"
proof (induction s)
  case Nil
  show ?case by simp
next
  case (Cons c s)
  then have "\<not> prefix sep (c # s)" and "\<not> sublist sep s"
    by (auto simp: sublist_Cons_right)
  with Cons.IH show ?case by simp
qed

lemma split_first_here: "sep \<noteq> [] \<Longrightarrow> split_first sep (sep @ b) = Some ([], b)"
  by (cases sep) simp_all

lemma split_first_at:
  assumes "sep \<noteq> []" and "\<forall>i<length a. \<not> prefix sep (drop i (a @ sep @ b))"
  shows "split_first sep (a @ sep @ b) = Some (a, b)"
  using assms(2)
proof (induction a)
  case Nil
  show ?case using assms(1) by (simp add: split_first_here)
next
  case (Cons c a)
  from Cons.prems have "\<not> prefix sep (c # a @ sep @ b)"
    by (metis append_Cons drop0 length_greater_0_conv list.distinct(1))
  moreover from Cons.prems have "\<forall>i<length a. \<not> prefix sep (drop i (a @ sep @ b))"
    by (metis Suc_less_eq append_Cons drop_Suc_Cons length_Cons)
  ultimately show ?case using Cons.IH by simp
qed

lemma sublist_barrier:
  assumes "m \<noteq> []" and "x \<notin> set m" and "sublist m (a @ x # b)"
  shows "sublist m a \<or> sublist m b"
proof -
  from assms(3) consider "sublist m a" | "sublist m (x # b)"
    | xs1 xs2 where "m = xs1 @ xs2" "suffix xs1 a" "prefix xs2 (x # b)"
    by (auto simp: sublist_append)
  then show ?thesis
  proof cases
    case 1
    then show ?thesis by simp
  next
    case 2
    then have "prefix m (x # b) \<or> sublist m b" by (simp add: sublist_Cons_right)
    moreover have "\<not> prefix m (x # b)"
      using assms(1,2) by (cases m) auto
    ultimately show ?thesis by simp
  next
    case 3
    show ?thesis
    proof (cases xs2)
      case Nil
      with 3 have "suffix m a" by simp
      then show ?thesis by (auto simp: suffix_def)
    next
      case (Cons y ys)
      with 3 have "y = x" by simp
      with 3 Cons assms(2) show ?thesis by simp
    qed
  qed
qed

section \<open>White space at the ends\<close>

lemma str_strip_Nil [simp]: "str_strip [] = []"
  by (simp add: str_strip_def)

lemma isspace_LF: "isspace LF"
  by (simp add: isspace_def)

lemma dropWhile_keeps: "\<not> P (hd xs) \<Longrightarrow> dropWhile P xs = xs"
  by (cases xs) simp_all


lemma str_strip_line:
  assumes "s \<noteq> []" and "\<not> isspace (hd s)" and "\<not> isspace (last s)"
  shows "str_strip (s @ [LF]) = s"
proof -
  have "dropWhile isspace (s @ [LF]) = s @ [LF]"
    using assms(1,2) by (simp add: dropWhile_keeps)
  moreover have "dropWhile isspace (rev s) = rev s"
    using assms(1,3) by (simp add: dropWhile_keeps hd_rev)
  ultimately show ?thesis
    by (simp add: str_strip_def isspace_LF)
qed

lemma str_strip_fixed:
  assumes "str_strip s = s" and "s \<noteq> []"
  shows "\<not> isspace (hd s)" and "\<not> isspace (last s)"
proof -
  have len: "length (str_strip s) \<le> length (dropWhile isspace s)"
    using length_dropWhile_le [of isspace "rev (dropWhile isspace s)"]
    by (simp add: str_strip_def)
  show hd: "\<not> isspace (hd s)"
  proof
    assume "isspace (hd s)"
    with assms(2) have "length (dropWhile isspace s) < length s"
      using length_dropWhile_le [of isspace "tl s"] by (cases s) auto
    with len assms(1) show False by simp
  qed
  show "\<not> isspace (last s)"
  proof
    assume sp: "isspace (last s)"
    from hd assms(2) have "dropWhile isspace s = s" by (cases s) auto
    then have "str_strip s = rev (dropWhile isspace (rev s))" by (simp add: str_strip_def)
    moreover from sp assms(2) have "length (dropWhile isspace (rev s)) < length s"
      using length_dropWhile_le [of isspace "rev (butlast s)"]
      by (cases s rule: rev_cases) auto
    ultimately show False using assms(1)
      by (metis length_rev less_irrefl)
  qed
qed

section \<open>A logged line reads back\<close>

lemma marker_facts:
  "legacy_marker \<noteq> []" "length legacy_marker = 21"
  "CHR '':'' \<notin> set legacy_marker" "CHR ''#'' \<notin> set legacy_marker"
  "LF \<notin> set legacy_marker" "CHR ''F'' \<in> set legacy_marker"
  "hd legacy_marker = CHR ''F''" "last legacy_marker = CHR ''r''"
  by (simp_all add: legacy_marker_def)

lemma marker_not_after_space:
  "sublist legacy_marker (CHR '' '' # s) \<Longrightarrow> sublist legacy_marker s"
proof -
  assume a: "sublist legacy_marker (CHR '' '' # s)"
  have "\<not> prefix legacy_marker (CHR '' '' # s)"
    by (simp add: legacy_marker_def)
  with a show ?thesis by (simp add: sublist_Cons_right)
qed

lemma marker_not_before_space:
  "sublist legacy_marker (s @ [CHR '' '']) \<Longrightarrow> sublist legacy_marker s"
proof -
  assume a: "sublist legacy_marker (s @ [CHR '' ''])"
  have "\<not> suffix legacy_marker (s @ [CHR '' ''])"
  proof
    assume "suffix legacy_marker (s @ [CHR '' ''])"
    then obtain zs where "s @ [CHR '' ''] = zs @ legacy_marker"
      by (auto simp: suffix_def)
    then have "last (s @ [CHR '' '']) = last (zs @ legacy_marker)"
      by simp
    then show False
      by (simp add: marker_facts)
  qed
  with a show ?thesis using sublist_snoc [of legacy_marker s "CHR '' ''"] by blast
qed

lemma marker_not_in_operation:
  "operation = ''write'' \<or> operation = ''append'' \<or> operation = ''delete'' \<Longrightarrow>
     \<not> sublist legacy_marker operation"
  using sublist_length_le [of legacy_marker operation]
  by (auto simp: marker_facts)

lemma marker_not_in_entry:
  assumes "loggable operation path checksum"
  shows "\<not> sublist legacy_marker (log_entry operation path checksum @ [LF])"
proof
  assume "sublist legacy_marker (log_entry operation path checksum @ [LF])"
  then have "sublist legacy_marker (log_entry operation path checksum)"
    using sublist_barrier [of legacy_marker LF "log_entry operation path checksum" "[]"]
    by (simp add: marker_facts)
  then have "sublist legacy_marker (operation @ CHR '':'' # (CHR '' '' # path)
               @ (case checksum of None \<Rightarrow> [] | Some c \<Rightarrow> '' #'' @ c))"
    by (simp add: log_entry_def)
  then have "sublist legacy_marker operation
           \<or> sublist legacy_marker ((CHR '' '' # path)
               @ (case checksum of None \<Rightarrow> [] | Some c \<Rightarrow> '' #'' @ c))"
    by (rule sublist_barrier [OF marker_facts(1) marker_facts(3)])
  with assms have rest: "sublist legacy_marker ((CHR '' '' # path)
               @ (case checksum of None \<Rightarrow> [] | Some c \<Rightarrow> '' #'' @ c))"
    using marker_not_in_operation [of operation] by (auto simp: loggable_def)
  from assms have path: "\<not> sublist legacy_marker path"
    by (simp add: loggable_def plain_text_def)
  show False
  proof (cases checksum)
    case None
    with rest path show False
      by (auto dest: marker_not_after_space)
  next
    case (Some c)
    with rest have "sublist legacy_marker ((CHR '' '' # path @ [CHR '' '']) @ CHR ''#'' # c)"
      by simp
    then have "sublist legacy_marker (CHR '' '' # path @ [CHR '' '']) \<or> sublist legacy_marker c"
      by (rule sublist_barrier [OF marker_facts(1) marker_facts(4)])
    moreover from assms Some have "\<not> sublist legacy_marker c"
      by (simp add: loggable_def plain_text_def)
    ultimately have "sublist legacy_marker path"
      by (auto dest: marker_not_after_space marker_not_before_space)
    with path show False ..
  qed
qed

lemma rsplit_at_checksum:
  assumes "\<not> sublist '' #'' c"
  shows "str_rsplit1 '' #'' (p @ '' #'' @ c) = [p, c]"
proof -
  have "\<not> prefix ''# '' (drop i (rev c @ ''# '' @ rev p))" if "i < length c" for i
  proof
    assume pre: "prefix ''# '' (drop i (rev c @ ''# '' @ rev p))"
    from that obtain y ys where d: "drop i (rev c) = y # ys"
      by (cases "drop i (rev c)") auto
    with pre that have "y = CHR ''#''" and "prefix '' '' (ys @ ''# '' @ rev p)"
      by auto
    then obtain zs where "ys = CHR '' '' # zs"
      by (cases ys) auto
    with d \<open>y = CHR ''#''\<close> have "prefix ''# '' (drop i (rev c))"
      by simp
    then have "sublist ''# '' (rev c)"
      by (meson prefix_imp_sublist sublist_drop sublist_order.order_trans)
    then have "sublist (rev ''# '') c"
      by (simp add: sublist_rev_right)
    with assms show False by simp
  qed
  then have "split_first ''# '' (rev c @ ''# '' @ rev p) = Some (rev c, rev p)"
    by (intro split_first_at) auto
  then show ?thesis
    by (simp add: str_rsplit1_def)
qed

lemma rsplit_without_checksum:
  assumes "\<not> sublist '' #'' p"
  shows "str_rsplit1 '' #'' p = [p]"
proof -
  from assms have "\<not> sublist (rev '' #'') (rev p)"
    by (metis sublist_rev)
  then have "split_first (rev '' #'') (rev p) = None"
    by (rule split_first_absent)
  then show ?thesis
    by (simp add: str_rsplit1_def)
qed

lemma split_operation:
  assumes "operation = ''write'' \<or> operation = ''append'' \<or> operation = ''delete''"
  shows "str_split1 '': '' (operation @ '': '' @ rest) = [operation, rest]"
    and "str_strip operation = operation"
    and "\<not> isspace (hd (operation @ s))"
    and "CR \<notin> set operation" and "LF \<notin> set operation"
  using assms by (auto simp: str_split1_def str_strip_def isspace_def)

lemma plain_text_ends:
  assumes "plain_text s" and "s \<noteq> []"
  shows "\<not> isspace (last s)"
  using assms str_strip_fixed(2) [of s] by (simp add: plain_text_def)

lemma parse_line_entry:
  assumes "loggable operation path checksum"
  shows "parse_line (log_entry operation path checksum @ [LF]) = Yield (operation, path, checksum)"
proof -
  let ?body = "log_entry operation path checksum"
  from assms have op: "operation = ''write'' \<or> operation = ''append'' \<or> operation = ''delete''"
    and path: "plain_text path"
    by (simp_all add: loggable_def)
  have removed: "str_remove legacy_marker (?body @ [LF]) = ?body @ [LF]"
    by (rule str_remove_absent [OF marker_not_in_entry [OF assms]])
  have body: "?body = operation @ '': '' @ (path @ (case checksum of None \<Rightarrow> [] | Some c \<Rightarrow> '' #'' @ c))"
    by (simp add: log_entry_def)
  have nonempty: "?body \<noteq> []"
    using op by (auto simp: log_entry_def)
  have first: "\<not> isspace (hd ?body)"
    unfolding body by (rule split_operation(3) [OF op])
  have last: "\<not> isspace (last ?body)"
  proof (cases checksum)
    case None
    with assms have "path \<noteq> []" by (simp add: loggable_def)
    with None plain_text_ends [OF path] show ?thesis
      by (simp add: log_entry_def)
  next
    case (Some c)
    with assms have c: "plain_text c" by (simp add: loggable_def)
    show ?thesis
    proof (cases "c = []")
      case True
      with Some show ?thesis by (simp add: log_entry_def isspace_def)
    next
      case False
      with Some plain_text_ends [OF c] show ?thesis
        by (simp add: log_entry_def)
    qed
  qed
  have stripped: "str_strip (?body @ [LF]) = ?body"
    by (rule str_strip_line [OF nonempty first last])
  have split: "str_split1 '': '' ?body
                 = [operation, path @ (case checksum of None \<Rightarrow> [] | Some c \<Rightarrow> '' #'' @ c)]"
    unfolding body by (rule split_operation(1) [OF op])
  have sop: "str_strip operation = operation"
    by (rule split_operation(2) [OF op])
  have spath: "str_strip path = path"
    using path by (simp add: plain_text_def)
  show ?thesis
  proof (cases checksum)
    case None
    show ?thesis
    proof (cases "operation = ''delete''")
      case True
      with None removed stripped nonempty split sop spath show ?thesis
        by (simp add: parse_line_def)
    next
      case False
      with assms None have "\<not> sublist '' #'' path"
        by (simp add: loggable_def)
      then have "str_rsplit1 '' #'' path = [path]"
        by (rule rsplit_without_checksum)
      with False op None removed stripped nonempty split sop spath show ?thesis
        by (auto simp: parse_line_def)
    qed
  next
    case (Some c)
    with assms have nd: "operation \<noteq> ''delete''" and c: "plain_text c" and ns: "\<not> sublist '' #'' c"
      by (simp_all add: loggable_def)
    from ns have "str_rsplit1 '' #'' (path @ '' #'' @ c) = [path, c]"
      by (rule rsplit_at_checksum)
    moreover from c have "str_strip c = c" by (simp add: plain_text_def)
    ultimately show ?thesis
      using nd op Some removed stripped nonempty split sop spath
      by (auto simp: parse_line_def)
  qed
qed

lemma operations_from_log_content:
  "operations_from_log fs log_path = parse_log_lines (readlines (content_of fs log_path))"
  by (simp add: operations_from_log_def content_of_def readlines_def split: option.splits)

lemma entry_one_line:
  assumes "loggable operation path checksum"
  shows "CR \<notin> set (log_entry operation path checksum)"
    and "LF \<notin> set (log_entry operation path checksum)"
  using assms
  by (auto simp: loggable_def plain_text_def log_entry_def split: option.splits)

lemma logged_entry_reads_back:
  assumes "loggable operation path checksum"
    and "os_permits fs (file_logger_path cfg)"
    and "ends_with_newline (content_of fs (file_logger_path cfg))"
    and "operations_from_log fs (file_logger_path cfg) = (es, None)"
  shows "operations_from_log (log_operation cfg md5 fs operation path checksum)
           (file_logger_path cfg)
         = (es @ [(operation, path, checksum)], None)"
proof -
  let ?log = "file_logger_path cfg"
  let ?line = "log_entry operation path checksum @ [LF]"
  have "content_of (log_operation cfg md5 fs operation path checksum) ?log
          = content_of fs ?log @ ?line"
    using assms(2) by (simp add: log_operation_appends content_of_appended)
  moreover have "readlines (content_of fs ?log @ ?line) = readlines (content_of fs ?log) @ [?line]"
    using readlines_append_line [OF assms(3) entry_one_line [OF assms(1)]] by simp
  moreover have "parse_log_lines (readlines (content_of fs ?log)) = (es, None)"
    using assms(4) by (simp add: operations_from_log_content)
  moreover have "parse_log_lines [?line] = ([(operation, path, checksum)], None)"
    by (simp add: parse_line_entry [OF assms(1)])
  ultimately show ?thesis
    by (simp add: operations_from_log_content parse_log_lines_append)
qed



section \<open>The duplicate gate\<close>

text \<open>
  C2. The claim: a write probe is a duplicate exactly when the reconstructed checksum of
  the path equals the supplied one, and never when the path is absent from the
  reconstructed state, an absent checksum included. The code compares
  \<open>state.get(filename)\<close>, which is \<open>None\<close> for an absent path, with the supplied
  checksum: with no log at all, the state is empty, the path \<open>a.txt\<close> is absent from it,
  and the write probe without a checksum answers \<open>True\<close>.
\<close>

theorem write_gate_absent_path_no_checksum:
  "files fresh_fs (file_logger_path example_cfg) = None
   \<and> file_operations_state fresh_fs (file_logger_path example_cfg) = Inr Map.empty
   \<and> is_duplicate_operation example_cfg fresh_fs ''write'' ''a.txt'' None = Inr True"
  by (simp add: is_duplicate_operation_def missing_log_state dict_get_def fresh_fs_def)



text \<open>
  C4. The claim: with no log file the gate never answers \<open>True\<close>, whatever the
  operation. The delete probe does: with no log file, the delete of \<open>a.txt\<close> is
  reported as a duplicate.
\<close>

theorem missing_log_delete_counterexample:
  "files fresh_fs (file_logger_path example_cfg) = None
   \<and> is_duplicate_operation example_cfg fresh_fs ''delete'' ''a.txt'' None = Inr True"
  by (simp add: is_duplicate_operation_def missing_log_state fresh_fs_def)

text \<open>
  C4, amended. When the log file does not exist, reading it yields no entry and no
  error, the reconstructed state is empty, every delete probe is a duplicate, and no
  append probe and no write probe that supplies a checksum is one.
\<close>

theorem missing_log_is_empty_history:
  assumes "files fs (file_logger_path cfg) = None"
  shows "operations_from_log fs (file_logger_path cfg) = ([], None)
       \<and> file_operations_state fs (file_logger_path cfg) = Inr Map.empty
       \<and> is_duplicate_operation cfg fs ''delete'' path checksum = Inr True
       \<and> is_duplicate_operation cfg fs ''append'' path checksum = Inr False
       \<and> is_duplicate_operation cfg fs ''write'' path (Some c) = Inr False"
  using assms
  by (simp add: is_duplicate_operation_def missing_log_state operations_from_log_def
        dict_get_def)

theorem missing_log_is_empty_history_witness:
  "operations_from_log fresh_fs (file_logger_path example_cfg) = ([], None)
   \<and> file_operations_state fresh_fs (file_logger_path example_cfg) = Inr Map.empty
   \<and> is_duplicate_operation example_cfg fresh_fs ''delete'' ''a.txt'' None = Inr True
   \<and> is_duplicate_operation example_cfg fresh_fs ''append'' ''a.txt''
       (Some ''5d41402abc4b2a76b9719d911017c592'') = Inr False
   \<and> is_duplicate_operation example_cfg fresh_fs ''write'' ''a.txt''
       (Some ''5d41402abc4b2a76b9719d911017c592'') = Inr False"
proof -
  have h: "files fresh_fs (file_logger_path example_cfg) = None"
    by (simp add: fresh_fs_def)
  show ?thesis
    using missing_log_is_empty_history
        [OF h, of "''a.txt''" "Some ''5d41402abc4b2a76b9719d911017c592''"
           "''5d41402abc4b2a76b9719d911017c592''"]
      missing_log_is_empty_history [OF h, of "''a.txt''" None]
    by simp
qed

section \<open>Reading the log\<close>

text \<open>
  C5. The claim: a line whose kind is not exactly \<open>write\<close>, \<open>append\<close> or \<open>delete\<close>
  makes the read fail; no such line is skipped. The loop has no branch for another
  kind: in the log below, the line with the kind \<open>Write\<close> and the line with the kind
  \<open>rename\<close> are passed over without an error, and the read ends normally with the one
  entry of the third line.
\<close>

theorem unknown_kind_silently_skipped:
  "operations_from_log
     (with_log (''Write: a.txt #5d41402abc4b2a76b9719d911017c592'' @ [LF]
                @ ''rename: a.txt'' @ [LF]
                @ ''write: b.txt #5d41402abc4b2a76b9719d911017c592'' @ [LF]))
     (file_logger_path example_cfg)
   = ([(''write'', ''b.txt'', Some ''5d41402abc4b2a76b9719d911017c592'')], None)"
  by code_simp

text \<open>
  C6. When some delete entry names a path that is not a key of the state accumulated
  from the entries before it, \<open>file_operations_state\<close> raises \<open>KeyError\<close> instead of
  passing over the entry; otherwise, when the read of the log ends without an error,
  its result is the state in which every write and append has set the checksum of its
  path and every delete has removed its path, in the order of the file.
\<close>

theorem delete_of_untracked_raises:
  assumes "operations_from_log fs log_path = (es, ending)"
  shows "(untracked_delete Map.empty es \<longrightarrow>
            (\<exists>p. file_operations_state fs log_path = Inl (KeyError p)))
       \<and> (\<not> untracked_delete Map.empty es \<and> ending = None \<longrightarrow>
            file_operations_state fs log_path = Inr (reconstruct Map.empty es))"
  using assms state_loop_untracked [of Map.empty es] state_loop_tracked [of Map.empty es]
  by (auto simp: file_operations_state_def)

theorem delete_of_untracked_raises_witness:
  "(\<exists>p. file_operations_state
          (with_log (''write: a.txt #1'' @ [LF] @ ''delete: b.txt'' @ [LF]))
          (file_logger_path example_cfg) = Inl (KeyError p))
   \<and> file_operations_state
       (with_log (''write: a.txt #1'' @ [LF] @ ''delete: a.txt'' @ [LF]))
       (file_logger_path example_cfg)
     = Inr (reconstruct Map.empty [(''write'', ''a.txt'', Some ''1''), (''delete'', ''a.txt'', None)])"
proof -
  have u: "untracked_delete Map.empty [(''write'', ''a.txt'', Some ''1''), (''delete'', ''b.txt'', None)]"
    by code_simp
  have t: "\<not> untracked_delete Map.empty [(''write'', ''a.txt'', Some ''1''), (''delete'', ''a.txt'', None)]"
    by code_simp
  show ?thesis
    using delete_of_untracked_raises [OF untracked_entries] u
      delete_of_untracked_raises [OF tracked_entries] t
    by blast
qed

section \<open>Splitting and renaming\<close>

text \<open>
  C9. The claim: for \<open>0 \<le> overlap < max_length\<close> the chunks cover every character of
  the content, and without overlap their concatenation is the content. A chunk that
  is not the last one ends one character early: for the content \<open>0123456789\<close>, the
  maximum length 4 and no overlap, the chunks are \<open>012\<close>, \<open>456\<close> and \<open>89\<close>, and the
  characters \<open>3\<close> and \<open>7\<close> are in none of them.
\<close>

theorem split_file_loses_characters:
  "split_file ''0123456789'' 4 0 = Some [''012'', ''456'', ''89'']
   \<and> concat [''012'', ''456'', ''89''] \<noteq> ''0123456789''"
  by (simp add: split_file_def split_loop.simps str_slice_def slice_index_def)



section \<open>Writing and appending\<close>






section \<open>The round trip of a log entry\<close>

text \<open>
  C8. The claim: for every kind, path and optional checksum, the entry that
  \<open>log_operation\<close> appends reads back with the same kind, path and checksum. The
  reader splits the line at its last \<open>'' #''\<close>: the write of the path \<open>/w/a #1.txt\<close>
  without a checksum reads back as the path \<open>/w/a\<close> with the checksum \<open>1.txt\<close>.
\<close>

theorem log_round_trip_counterexample:
  "operations_from_log
     (log_operation example_cfg example_md5 fresh_fs ''write'' ''/w/a #1.txt'' None)
     (file_logger_path example_cfg)
   = ([(''write'', ''/w/a'', Some ''1.txt'')], None)"
  by (simp add: eval_defs)

text \<open>
  C8, amended. Let the kind be \<open>write\<close>, \<open>append\<close> or \<open>delete\<close>; let the path, and the
  checksum when there is one, have no white space at the ends, no line end and no
  legacy marker; let a delete have no checksum, a path without checksum be non-empty
  and, for a write or an append, hold no \<open>'' #''\<close>, and a checksum hold no \<open>'' #''\<close>.
  Let the log be missing, empty or end with a line feed, read without an error, and
  be open to appending. Then the log after \<open>log_operation\<close> reads as the former
  entries followed by the entry with the same kind, path and checksum.
\<close>

theorem log_round_trip:
  assumes "loggable operation path checksum"
    and "os_permits fs (file_logger_path cfg)"
    and "ends_with_newline (content_of fs (file_logger_path cfg))"
    and "operations_from_log fs (file_logger_path cfg) = (es, None)"
  shows "operations_from_log (log_operation cfg md5 fs operation path checksum)
           (file_logger_path cfg)
         = (es @ [(operation, path, checksum)], None)"
  using assms by (rule logged_entry_reads_back)

theorem log_round_trip_witness:
  "operations_from_log
     (log_operation example_cfg example_md5
        (with_log (''write: /w/a.txt #d41d8cd98f00b204e9800998ecf8427e'' @ [LF]))
        ''delete'' ''/w/a.txt'' None)
     (file_logger_path example_cfg)
   = ([(''write'', ''/w/a.txt'', Some ''d41d8cd98f00b204e9800998ecf8427e''),
       (''delete'', ''/w/a.txt'', None)], None)"
proof -
  let ?fs = "with_log (''write: /w/a.txt #d41d8cd98f00b204e9800998ecf8427e'' @ [LF])"
  have entry: "loggable ''delete'' ''/w/a.txt'' None"
    by code_simp
  have permits: "os_permits ?fs (file_logger_path example_cfg)"
    by (simp add: os_permits_def with_log_def fresh_fs_def example_cfg_def dirname_def)
  have complete: "ends_with_newline (content_of ?fs (file_logger_path example_cfg))"
    by (simp add: ends_with_newline_def content_of_def with_log_def example_cfg_def)
  have before: "operations_from_log ?fs (file_logger_path example_cfg)
                  = ([(''write'', ''/w/a.txt'', Some ''d41d8cd98f00b204e9800998ecf8427e'')], None)"
    by code_simp
  show ?thesis
    using log_round_trip [OF entry permits complete before] by simp
qed

end
